theory Spec2Isabelle
  imports Complex_Main
begin

section \<open>Python string helpers\<close>

text \<open>
  Python strings are modelled as \<open>string\<close>; the characters that matter to the code
  (path separators, key prefixes, line feeds, the letter Z) are all ASCII.
\<close>

definition py_startswith :: "string \<Rightarrow> string \<Rightarrow> bool" where
  "py_startswith s p = (take (length p) s = p)"

definition py_endswith :: "string \<Rightarrow> string \<Rightarrow> bool" where
  "py_endswith s p = (length p \<le> length s \<and> drop (length s - length p) s = p)"







section \<open>Exceptions\<close>

text \<open>
  The exceptions the three scripts can meet. All of them are subclasses of
  \<open>Exception\<close>, so an \<open>except Exception\<close> clause catches each of them.
  \<open>PlainException\<close> is a direct \<open>raise Exception(...)\<close>.
\<close>

datatype exn =
    OSError | JSONDecodeError | TypeError | AttributeError | KeyError | ValueError
  | PlainException | WebDriverException | UnboundLocalError | CalledProcessError

section \<open>credential-renewer/renewer.py\<close>

subsection \<open>The token cache and the clock\<close>

text \<open>
  What \<open>json.load\<close> returns. An object is the list of the items of its \<open>dict\<close>, each key
  once.
\<close>

datatype json =
    JNull | JBool bool | JNumber rat | JString string
  | JArray "json list" | JObject "(string \<times> json) list"









subsection \<open>check\_token\_expiration\<close>












subsection \<open>An example environment\<close>




subsection \<open>perform\_sso\_login (the CLI strategy)\<close>


text \<open>What a login call does to the outside, in order.\<close>

datatype login_event =
    MakeDirs | AwsSsoLogin | BrowserStart | TimeSleep nat | BrowserFlow | BrowserQuit



subsection \<open>main (the renewal loop)\<close>

text \<open>
  What a call made by the loop does: it returns, it raises an \<open>Exception\<close>, or the
  process is interrupted in it (\<open>KeyboardInterrupt\<close> or \<open>SystemExit\<close>, which are not
  \<open>Exception\<close>s and pass through \<open>except Exception\<close>).
\<close>

datatype 'a outcome = Returns 'a | Raises exn | Interrupted

text \<open>
  One cycle as the loop sees it: what the token check does, what the login does if it
  is called, and whether the stop signal arrives during the sleep of this cycle.
\<close>

record cycle_env =
  check_outcome :: "bool outcome"
  login_outcome :: "bool outcome"
  sleep_interrupted :: bool

datatype loop_action = CheckToken | Login | LogError exn | Sleep int

datatype loop_status = Running | Stopped

text \<open>\<open>time.sleep(n)\<close>: a negative argument raises \<open>ValueError\<close>.\<close>

definition py_sleep :: "int \<Rightarrow> cycle_env \<Rightarrow> loop_action list \<times> unit outcome" where
  "py_sleep n c =
     (if n < 0 then ([], Raises ValueError)
      else if sleep_interrupted c then ([Sleep n], Interrupted)
      else ([Sleep n], Returns ()))"

text \<open>The body of the \<open>try\<close> block of the loop.\<close>

definition cycle_try :: "int \<Rightarrow> cycle_env \<Rightarrow> loop_action list \<times> unit outcome" where
  "cycle_try check_interval c =
     (case check_outcome c of
        Raises e \<Rightarrow> ([CheckToken], Raises e)
      | Interrupted \<Rightarrow> ([CheckToken], Interrupted)
      | Returns due \<Rightarrow>
          (if due then
             (case login_outcome c of
                Raises e \<Rightarrow> ([CheckToken, Login], Raises e)
              | Interrupted \<Rightarrow> ([CheckToken, Login], Interrupted)
              | Returns ok \<Rightarrow>
                  ([CheckToken, Login] @ fst (py_sleep check_interval c),
                   snd (py_sleep check_interval c)))
           else ([CheckToken] @ fst (py_sleep check_interval c),
                 snd (py_sleep check_interval c))))"

text \<open>One iteration of \<open>while True\<close>: the \<open>try\<close> block and its \<open>except Exception\<close> clause.\<close>

definition cycle :: "int \<Rightarrow> cycle_env \<Rightarrow> loop_action list \<times> loop_status" where
  "cycle check_interval c =
     (case cycle_try check_interval c of
        (tr, Returns u) \<Rightarrow> (tr, Running)
      | (tr, Interrupted) \<Rightarrow> (tr, Stopped)
      | (tr, Raises e) \<Rightarrow>
          (case py_sleep 60 c of
             (tr', Returns u) \<Rightarrow> (tr @ [LogError e] @ tr', Running)
           | (tr', r) \<Rightarrow> (tr @ [LogError e] @ tr', Stopped)))"

text \<open>
  The loop never ends by itself, so it is run against the environments of the cycles
  to come, one per cycle: the result is what it has done when they are used up, and
  whether it is still running then.
\<close>

fun main_loop :: "int \<Rightarrow> cycle_env list \<Rightarrow> loop_action list \<times> loop_status" where
  "main_loop check_interval [] = ([], Running)"
| "main_loop check_interval (c # cs) =
     (case cycle check_interval c of
        (tr, Stopped) \<Rightarrow> (tr, Stopped)
      | (tr, Running) \<Rightarrow>
          (tr @ fst (main_loop check_interval cs), snd (main_loop check_interval cs)))"

section \<open>sso-authenticator/authenticator.py\<close>

subsection \<open>perform\_sso\_login (the browser strategy)\<close>





text \<open>
  The state of the name \<open>browser\<close> after the initialization loop: bound to a browser,
  never bound because the loop body did not run, or the loop left by an exception.
\<close>

datatype init_result = InitStarted | InitUnbound | InitRaised exn

text \<open>
  \<open>for attempt in range(MAX_RETRIES)\<close>, from the iteration \<open>attempt\<close> on. Only a
  \<open>WebDriverException\<close> is handled by the \<open>except\<close> clause; it is followed by a sleep
  of two seconds and the next iteration, except in the last iteration, which raises
  it again.
\<close>

function init_loop :: "(nat \<Rightarrow> exn option) \<Rightarrow> int \<Rightarrow> int \<Rightarrow> login_event list \<times> init_result" where
  "init_loop start max_retries attempt =
     (if 0 \<le> attempt \<and> attempt < max_retries then
        (case start (nat attempt) of
           None \<Rightarrow> ([BrowserStart], InitStarted)
         | Some e \<Rightarrow>
             (if e = WebDriverException then
                (if attempt < max_retries - 1 then
                   ([BrowserStart, TimeSleep 2] @ fst (init_loop start max_retries (attempt + 1)),
                    snd (init_loop start max_retries (attempt + 1)))
                 else ([BrowserStart], InitRaised e))
              else ([BrowserStart], InitRaised e)))
      else ([], InitUnbound))"
  by pat_completeness auto
termination
  by (relation "measure (\<lambda>(start, max_retries, attempt). nat (max_retries - attempt))") auto

declare init_loop.simps [simp del]


subsection \<open>extract\_and\_update\_credentials\<close>









subsection \<open>An example environment\<close>


subsection \<open>main (the authenticator)\<close>


subsection \<open>Example environments of the two login strategies\<close>



section \<open>credential-monitor/monitor.py\<close>

text \<open>
  \<open>os.path.join\<close> on POSIX for two components: an absolute second component wins,
  otherwise the components are joined with exactly one separator.
\<close>

definition path_join :: "string \<Rightarrow> string \<Rightarrow> string" where
  "path_join a b =
     (if py_startswith b ''/'' then b
      else if a = [] \<or> py_endswith a ''/'' then a @ b
      else a @ ''/'' @ b)"

text \<open>
  The module constants. \<open>AWS_DIR\<close> is \<open>os.path.expanduser('~/.aws')\<close>, which depends on
  the home directory of the process, so it is a parameter of the three derived paths.
\<close>

definition CREDENTIAL_FILE :: "string \<Rightarrow> string" where
  "CREDENTIAL_FILE aws_dir = path_join aws_dir ''credentials''"

definition CONFIG_FILE :: "string \<Rightarrow> string" where
  "CONFIG_FILE aws_dir = path_join aws_dir ''config''"

definition SSO_CACHE_DIR :: "string \<Rightarrow> string" where
  "SSO_CACHE_DIR aws_dir = path_join aws_dir ''sso/cache''"

text \<open>A watchdog event, reduced to the two attributes \<open>on_modified\<close> reads.\<close>

record event =
  src_path :: string
  is_directory :: bool

text \<open>The two instance attributes of \<open>CredentialEventHandler\<close>, set by \<open>__init__\<close>.\<close>

record handler =
  last_event_time :: rat
  cooldown_period :: rat

definition handler_init :: handler where
  "handler_init = \<lparr>last_event_time = 0, cooldown_period = 5\<rparr>"

text \<open>
  What one call of \<open>on_modified\<close> did: returned at the cooldown check, returned at the
  directory check, fell through the path test, or called \<open>_restart_s3proxy\<close>
  (the "credentials changed" signal).
\<close>

datatype disposition = IgnoredCooldown | IgnoredDirectory | IgnoredPath | Restarted

definition is_watched :: "string \<Rightarrow> string \<Rightarrow> bool" where
  "is_watched aws_dir p =
     (p = CREDENTIAL_FILE aws_dir \<or> p = CONFIG_FILE aws_dir \<or>
      py_startswith p (SSO_CACHE_DIR aws_dir))"

text \<open>
  \<open>on_modified\<close>, statement by statement. \<open>current_time\<close> is the reading of
  \<open>time.time()\<close> taken at the start of the call. The assignment to
  \<open>last_event_time\<close> comes right after the cooldown check and before the two filters.
  The outcome of the restart command does not reach the handler's attributes.
\<close>

definition on_modified :: "string \<Rightarrow> handler \<Rightarrow> rat \<Rightarrow> event \<Rightarrow> handler \<times> disposition" where
  "on_modified aws_dir h current_time ev =
     (if current_time - last_event_time h < cooldown_period h then (h, IgnoredCooldown)
      else
        let h' = h\<lparr>last_event_time := current_time\<rparr> in
        if is_directory ev then (h', IgnoredDirectory)
        else if is_watched aws_dir (src_path ev) then (h', Restarted)
        else (h', IgnoredPath))"

text \<open>
  The observer thread delivers the events one after the other to the same handler
  object. Each event comes with the clock reading of its call; the log records the
  reading and what the call did.
\<close>

fun dispatch :: "string \<Rightarrow> handler \<Rightarrow> (rat \<times> event) list \<Rightarrow> (rat \<times> disposition) list" where
  "dispatch aws_dir h [] = []"
| "dispatch aws_dir h ((t, ev) # rest) =
     (t, snd (on_modified aws_dir h t ev)) #
       dispatch aws_dir (fst (on_modified aws_dir h t ev)) rest"

definition restart_times :: "string \<Rightarrow> handler \<Rightarrow> (rat \<times> event) list \<Rightarrow> rat list" where
  "restart_times aws_dir h evs =
     map fst (filter (\<lambda>x. snd x = Restarted) (dispatch aws_dir h evs))"

definition passed_times :: "string \<Rightarrow> handler \<Rightarrow> (rat \<times> event) list \<Rightarrow> rat list" where
  "passed_times aws_dir h evs =
     map fst (filter (\<lambda>x. snd x \<noteq> IgnoredCooldown) (dispatch aws_dir h evs))"

section \<open>Properties of the watcher\<close>

lemma on_modified_cooldown_period:
  "cooldown_period (fst (on_modified aws_dir h t ev)) = cooldown_period h"
  by (simp add: on_modified_def Let_def)

lemma on_modified_passed:
  "snd (on_modified aws_dir h t ev) \<noteq> IgnoredCooldown \<Longrightarrow>
   last_event_time h + cooldown_period h \<le> t \<and>
   last_event_time (fst (on_modified aws_dir h t ev)) = t"
  by (auto simp: on_modified_def Let_def split: if_splits)

lemma on_modified_ignored:
  "snd (on_modified aws_dir h t ev) = IgnoredCooldown \<Longrightarrow>
   fst (on_modified aws_dir h t ev) = h"
  by (auto simp: on_modified_def Let_def split: if_splits)

lemma dispatch_passed_after:
  "0 \<le> cooldown_period h \<Longrightarrow> (t, r) \<in> set (dispatch aws_dir h evs) \<Longrightarrow>
   r \<noteq> IgnoredCooldown \<Longrightarrow> last_event_time h + cooldown_period h \<le> t"
proof (induction evs arbitrary: h)
  case Nil
  then show ?case by simp
next
  case (Cons x evs)
  obtain u ev where x: "x = (u, ev)" by (cases x)
  let ?h' = "fst (on_modified aws_dir h u ev)"
  have c': "cooldown_period ?h' = cooldown_period h"
    by (rule on_modified_cooldown_period)
  from Cons.prems(2) x
  consider (head) "t = u" "r = snd (on_modified aws_dir h u ev)"
    | (tail) "(t, r) \<in> set (dispatch aws_dir ?h' evs)"
    by auto
  then show ?case
  proof cases
    case head
    with Cons.prems(3) on_modified_passed [of aws_dir h u ev] show ?thesis by simp
  next
    case tail
    have later: "last_event_time ?h' + cooldown_period ?h' \<le> t"
      using Cons.IH [of ?h'] Cons.prems(1,3) tail c' by simp
    show ?thesis
    proof (cases "snd (on_modified aws_dir h u ev) = IgnoredCooldown")
      case True
      then have "?h' = h" by (rule on_modified_ignored)
      with later show ?thesis by simp
    next
      case False
      then have "last_event_time h + cooldown_period h \<le> u" "last_event_time ?h' = u"
        using on_modified_passed [of aws_dir h u ev] by simp_all
      with later c' Cons.prems(1) show ?thesis by simp
    qed
  qed
qed

lemma dispatch_spaced:
  "0 \<le> cooldown_period h \<Longrightarrow>
   sorted_wrt (\<lambda>a b. snd a \<noteq> IgnoredCooldown \<and> snd b \<noteq> IgnoredCooldown
                 \<longrightarrow> cooldown_period h \<le> fst b - fst a)
     (dispatch aws_dir h evs)"
proof (induction evs arbitrary: h)
  case Nil
  then show ?case by simp
next
  case (Cons x evs)
  obtain u ev where x: "x = (u, ev)" by (cases x)
  let ?h' = "fst (on_modified aws_dir h u ev)"
  have c': "cooldown_period ?h' = cooldown_period h"
    by (rule on_modified_cooldown_period)
  have tail: "sorted_wrt (\<lambda>a b. snd a \<noteq> IgnoredCooldown \<and> snd b \<noteq> IgnoredCooldown
                 \<longrightarrow> cooldown_period h \<le> fst b - fst a) (dispatch aws_dir ?h' evs)"
    using Cons.IH [of ?h'] Cons.prems c' by simp
  have head: "cooldown_period h \<le> t - u"
    if "snd (on_modified aws_dir h u ev) \<noteq> IgnoredCooldown"
      and "(t, r) \<in> set (dispatch aws_dir ?h' evs)" and "r \<noteq> IgnoredCooldown" for t r
  proof -
    from that(1) have "last_event_time ?h' = u"
      using on_modified_passed [of aws_dir h u ev] by simp
    moreover have "last_event_time ?h' + cooldown_period ?h' \<le> t"
      using dispatch_passed_after [of ?h' t r aws_dir evs] that(2,3) Cons.prems c' by simp
    ultimately show ?thesis using c' by simp
  qed
  show ?case using tail head by (auto simp: x)
qed

lemma sorted_wrt_map_filter_fst:
  "sorted_wrt (\<lambda>a b. P (snd a) \<and> P (snd b) \<longrightarrow> c \<le> fst b - fst a) xs \<Longrightarrow>
   sorted_wrt (\<lambda>a b. c \<le> b - a) (map fst (filter (\<lambda>x. P (snd x)) xs))"
  by (induction xs) (auto simp: sorted_wrt_map)

text \<open>
  C10. For every sequence of events delivered to a new handler, the clock readings of any
  two events that pass the cooldown check are at least five seconds apart, and so are
  the readings of any two events that call the restart. \<open>sorted_wrt\<close> relates every
  earlier element of the list to every later one.
\<close>

theorem cooldown_spacing:
  "sorted_wrt (\<lambda>a b. 5 \<le> b - a) (passed_times aws_dir handler_init evs) \<and>
   sorted_wrt (\<lambda>a b. 5 \<le> b - a) (restart_times aws_dir handler_init evs)"
proof -
  have c: "cooldown_period handler_init = 5" by (simp add: handler_init_def)
  have base: "sorted_wrt (\<lambda>a b. snd a \<noteq> IgnoredCooldown \<and> snd b \<noteq> IgnoredCooldown
                 \<longrightarrow> 5 \<le> fst b - fst a) (dispatch aws_dir handler_init evs)"
    using dispatch_spaced [of handler_init aws_dir evs] c by simp
  have p: "sorted_wrt (\<lambda>a b. 5 \<le> b - a) (passed_times aws_dir handler_init evs)"
    unfolding passed_times_def
    using sorted_wrt_map_filter_fst [of "\<lambda>r. r \<noteq> IgnoredCooldown", OF base] by simp
  have "sorted_wrt (\<lambda>a b. snd a = Restarted \<and> snd b = Restarted
                 \<longrightarrow> 5 \<le> fst b - fst a) (dispatch aws_dir handler_init evs)"
    by (rule sorted_wrt_mono_rel [OF _ base]) auto
  then have r: "sorted_wrt (\<lambda>a b. 5 \<le> b - a) (restart_times aws_dir handler_init evs)"
    unfolding restart_times_def
    using sorted_wrt_map_filter_fst
      [of "\<lambda>r. r = Restarted" 5 "dispatch aws_dir handler_init evs"] by simp
  from p r show ?thesis by simp
qed

text \<open>
  C7. Whatever the state of the handler, a sequence of events none of whose paths is
  the credentials file, the config file or a path that starts with the SSO cache
  directory never calls the restart.
\<close>

theorem unrelated_paths_never_restart:
  assumes "\<forall>x \<in> set evs. src_path (snd x) \<noteq> CREDENTIAL_FILE aws_dir \<and>
             src_path (snd x) \<noteq> CONFIG_FILE aws_dir \<and>
             \<not> py_startswith (src_path (snd x)) (SSO_CACHE_DIR aws_dir)"
  shows "restart_times aws_dir h evs = []"
  using assms
proof (induction evs arbitrary: h)
  case Nil
  then show ?case by (simp add: restart_times_def)
next
  case (Cons x evs)
  obtain t ev where x: "x = (t, ev)" by (cases x)
  from Cons.prems x have "\<not> is_watched aws_dir (src_path ev)"
    by (simp add: is_watched_def)
  then have "snd (on_modified aws_dir h t ev) \<noteq> Restarted"
    by (simp add: on_modified_def Let_def)
  moreover have "restart_times aws_dir (fst (on_modified aws_dir h t ev)) evs = []"
    using Cons.IH Cons.prems by simp
  ultimately show ?case by (simp add: restart_times_def x)
qed

theorem unrelated_paths_never_restart_witness:
  "restart_times ''/root/.aws'' handler_init
     [(1000, \<lparr>src_path = ''/tmp/notes.txt'', is_directory = False\<rparr>),
      (1010, \<lparr>src_path = ''/root/.aws/cli/cache/a.json'', is_directory = False\<rparr>)] = []"
proof -
  have h: "\<forall>x \<in> set [(1000::rat, \<lparr>src_path = ''/tmp/notes.txt'', is_directory = False\<rparr>),
               (1010, \<lparr>src_path = ''/root/.aws/cli/cache/a.json'', is_directory = False\<rparr>)].
      src_path (snd x) \<noteq> CREDENTIAL_FILE ''/root/.aws'' \<and>
      src_path (snd x) \<noteq> CONFIG_FILE ''/root/.aws'' \<and>
      \<not> py_startswith (src_path (snd x)) (SSO_CACHE_DIR ''/root/.aws'')"
    by (simp add: CREDENTIAL_FILE_def CONFIG_FILE_def SSO_CACHE_DIR_def path_join_def
        py_startswith_def py_endswith_def)
  show ?thesis by (rule unrelated_paths_never_restart [OF h])
qed



text \<open>
  C5. The claim that ignored events leave \<open>last_event_time\<close> as it was does not hold
  of the code. On a new handler, a directory event and an event on a path that is not
  watched each set \<open>last_event_time\<close> to their clock reading without a restart; and a
  change of the credentials file one second after the directory event is then dropped
  by the cooldown check, so that the sequence gives no restart at all.
\<close>

theorem ignored_event_moves_timestamp:
  "on_modified ''/root/.aws'' handler_init 1000
     \<lparr>src_path = ''/root/.aws/sso/cache'', is_directory = True\<rparr>
     = (\<lparr>last_event_time = 1000, cooldown_period = 5\<rparr>, IgnoredDirectory) \<and>
   on_modified ''/root/.aws'' handler_init 1000
     \<lparr>src_path = ''/root/.aws/notes.txt'', is_directory = False\<rparr>
     = (\<lparr>last_event_time = 1000, cooldown_period = 5\<rparr>, IgnoredPath) \<and>
   dispatch ''/root/.aws'' handler_init
     [(1000, \<lparr>src_path = ''/root/.aws/sso/cache'', is_directory = True\<rparr>),
      (1001, \<lparr>src_path = ''/root/.aws/credentials'', is_directory = False\<rparr>)]
     = [(1000, IgnoredDirectory), (1001, IgnoredCooldown)]"
  by (simp add: on_modified_def handler_init_def is_watched_def CREDENTIAL_FILE_def
      CONFIG_FILE_def SSO_CACHE_DIR_def path_join_def py_startswith_def py_endswith_def)

section \<open>Properties of the renewer\<close>


















lemma main_loop_append:
  "snd (main_loop ci pre) = Running \<Longrightarrow>
   main_loop ci (pre @ post) =
     (fst (main_loop ci pre) @ fst (main_loop ci post), snd (main_loop ci post))"
proof (induction pre)
  case Nil
  then show ?case by simp
next
  case (Cons c pre)
  obtain tr st where c: "cycle ci c = (tr, st)" by (cases "cycle ci c")
  show ?case
  proof (cases st)
    case Running
    with Cons c show ?thesis by simp
  next
    case Stopped
    with Cons.prems c show ?thesis by simp
  qed
qed

lemma cycle_raising:
  assumes "check_outcome c = Raises e \<or>
           (check_outcome c = Returns True \<and> login_outcome c = Raises e)"
    and "\<not> sleep_interrupted c"
  shows "cycle ci c =
           ((if check_outcome c = Raises e then [CheckToken] else [CheckToken, Login])
              @ [LogError e, Sleep 60], Running)"
  using assms by (auto simp: cycle_def cycle_try_def py_sleep_def)

lemma cycle_starts_with_check: "\<exists>tr. fst (cycle ci c) = CheckToken # tr"
  by (auto simp: cycle_def cycle_try_def py_sleep_def
      split: outcome.splits prod.splits if_splits)

lemma main_loop_starts_with_check: "\<exists>tr. fst (main_loop ci (c # cs)) = CheckToken # tr"
proof -
  obtain tr st where c: "cycle ci c = (tr, st)" by (cases "cycle ci c")
  from cycle_starts_with_check [of ci c] c obtain tr' where "tr = CheckToken # tr'" by auto
  with c show ?thesis by (cases st) simp_all
qed

lemma cycle_no_stop:
  assumes "check_outcome c \<noteq> Interrupted" "login_outcome c \<noteq> Interrupted"
    "\<not> sleep_interrupted c"
  shows "snd (cycle ci c) = Running \<and>
         length (filter (\<lambda>a. a = CheckToken) (fst (cycle ci c))) = 1"
  using assms
  by (auto simp: cycle_def cycle_try_def py_sleep_def
      split: outcome.splits prod.splits if_splits)

lemma main_loop_no_stop:
  assumes "\<forall>c \<in> set cs. check_outcome c \<noteq> Interrupted \<and> login_outcome c \<noteq> Interrupted \<and>
             \<not> sleep_interrupted c"
  shows "snd (main_loop ci cs) = Running \<and>
         length (filter (\<lambda>a. a = CheckToken) (fst (main_loop ci cs))) = length cs"
  using assms
proof (induction cs)
  case Nil
  then show ?case by simp
next
  case (Cons c cs)
  obtain tr st where c: "cycle ci c = (tr, st)" by (cases "cycle ci c")
  from Cons.prems cycle_no_stop [of c ci] c
  have "st = Running" "length (filter (\<lambda>a. a = CheckToken) tr) = 1" by simp_all
  with Cons c show ?case by simp
qed

text \<open>
  C8. Take a cycle that the loop reaches, in which the token check raises, or the check
  returns \<open>True\<close> and the login raises, and during whose sleep no stop signal arrives.
  Then the loop logs the exception and sleeps 60 seconds, and this cycle has no sleep of
  \<open>CHECK_INTERVAL\<close>; after that the loop goes on exactly as it would from a fresh start
  on the cycles that follow, so a following cycle begins with its token check; and the
  loop is still running after any number of following cycles in which no stop signal
  arrives, whatever they raise.
\<close>

theorem renewal_loop_recovers:
  assumes "snd (main_loop ci pre) = Running"
    and "check_outcome c = Raises e \<or>
         (check_outcome c = Returns True \<and> login_outcome c = Raises e)"
    and "\<not> sleep_interrupted c"
  shows "main_loop ci (pre @ c # post) =
           (fst (main_loop ci pre)
              @ (if check_outcome c = Raises e then [CheckToken] else [CheckToken, Login])
              @ [LogError e, Sleep 60]
              @ fst (main_loop ci post),
            snd (main_loop ci post)) \<and>
         (post \<noteq> [] \<longrightarrow> (\<exists>tr. fst (main_loop ci post) = CheckToken # tr)) \<and>
         ((\<forall>c' \<in> set post. check_outcome c' \<noteq> Interrupted \<and>
               login_outcome c' \<noteq> Interrupted \<and> \<not> sleep_interrupted c')
            \<longrightarrow> snd (main_loop ci (pre @ c # post)) = Running)"
proof -
  have one: "main_loop ci (c # post) =
      ((if check_outcome c = Raises e then [CheckToken] else [CheckToken, Login])
         @ [LogError e, Sleep 60] @ fst (main_loop ci post), snd (main_loop ci post))"
    using cycle_raising [OF assms(2,3), of ci] by simp
  have whole: "main_loop ci (pre @ c # post) =
           (fst (main_loop ci pre)
              @ (if check_outcome c = Raises e then [CheckToken] else [CheckToken, Login])
              @ [LogError e, Sleep 60]
              @ fst (main_loop ci post),
            snd (main_loop ci post))"
    using main_loop_append [OF assms(1), of "c # post"] one by simp
  have next_cycle: "\<exists>tr. fst (main_loop ci post) = CheckToken # tr" if "post \<noteq> []"
  proof -
    from that obtain c' rest where "post = c' # rest" by (cases post) auto
    then show ?thesis using main_loop_starts_with_check [of ci c' rest] by simp
  qed
  have goes_on: "snd (main_loop ci (pre @ c # post)) = Running"
    if "\<forall>c' \<in> set post. check_outcome c' \<noteq> Interrupted \<and>
               login_outcome c' \<noteq> Interrupted \<and> \<not> sleep_interrupted c'"
    using main_loop_no_stop [OF that, of ci] whole by simp
  from whole next_cycle goes_on show ?thesis by blast
qed

theorem renewal_loop_recovers_witness:
  "main_loop 900
     [\<lparr>check_outcome = Returns False, login_outcome = Returns True, sleep_interrupted = False\<rparr>,
      \<lparr>check_outcome = Raises OSError, login_outcome = Returns True, sleep_interrupted = False\<rparr>,
      \<lparr>check_outcome = Returns True, login_outcome = Returns False, sleep_interrupted = False\<rparr>]
     = ([CheckToken, Sleep 900,
         CheckToken, LogError OSError, Sleep 60,
         CheckToken, Login, Sleep 900], Running)"
proof -
  let ?a = "\<lparr>check_outcome = Returns False, login_outcome = Returns True,
             sleep_interrupted = False\<rparr>"
  let ?c = "\<lparr>check_outcome = Raises OSError, login_outcome = Returns True,
             sleep_interrupted = False\<rparr>"
  let ?b = "\<lparr>check_outcome = Returns True, login_outcome = Returns False,
             sleep_interrupted = False\<rparr>"
  have pre: "main_loop 900 [?a] = ([CheckToken, Sleep 900], Running)"
    by (simp add: cycle_def cycle_try_def py_sleep_def)
  have post: "main_loop 900 [?b] = ([CheckToken, Login, Sleep 900], Running)"
    by (simp add: cycle_def cycle_try_def py_sleep_def)
  have h1: "snd (main_loop 900 [?a]) = Running" using pre by simp
  have h2: "check_outcome ?c = Raises OSError \<or>
         (check_outcome ?c = Returns True \<and> login_outcome ?c = Raises OSError)" by simp
  have h3: "\<not> sleep_interrupted ?c" by simp
  from renewal_loop_recovers [OF h1 h2 h3, of "[?b]"] pre post show ?thesis by simp
qed

section \<open>Properties of the authenticator\<close>








lemma init_loop_skipped:
  "max_retries \<le> 0 \<Longrightarrow> init_loop start max_retries 0 = ([], InitUnbound)"
  by (subst init_loop.simps) simp







end
